theory Spec2Isabelle
  imports Main "HOL-Library.Word" "HOL-Library.Numeral_Type"
begin

unbundle bit_operations_syntax

section \<open>gophertags: fuzzy message detection tags over Ristretto255\<close>

text \<open>
  A shallow embedding of \<^verbatim>\<open>tags.go\<close>. The group library (ristretto255), SHA3 and the
  random source are external to the repository: the group and hash primitives are the
  fields of a record that every function takes as its first argument, and every read of
  the random source is an explicit argument.
\<close>

subsection \<open>Machine types\<close>

type_synonym byte = "8 word"

text \<open>Go's \<^verbatim>\<open>uint\<close> and \<^verbatim>\<open>big.Word\<close> on a 64-bit platform (\<^verbatim>\<open>bits.UintSize = 64\<close>).\<close>

type_synonym uint = "64 word"

definition UintSize :: nat where
  "UintSize = 64"

subsection \<open>The primitives of ristretto255 and sha3\<close>

text \<open>
  Scalars \<open>'s\<close> and elements \<open>'e\<close> are the mathematical values; \<^verbatim>\<open>Equal\<close> of the
  library is equality of these values. \<open>ScalarZero\<close> is \<^verbatim>\<open>NewScalar()\<close>, \<open>Identity\<close> is
  \<^verbatim>\<open>NewElement()\<close>. \<open>ScalarDecode\<close> and \<open>ElementDecode\<close> give the value a fresh
  receiver holds after \<^verbatim>\<open>Decode\<close>; the source discards the error that \<^verbatim>\<open>Decode\<close>
  returns. \<open>ScalarEncode\<close> and \<open>ElementEncode\<close> are the canonical 32-byte encodings.
\<close>

record ('s, 'e) r255 =
  FromUniformBytes :: "byte list \<Rightarrow> 's"
  ScalarZero :: "'s"
  ScalarOne :: "'s"
  ScalarAdd :: "'s \<Rightarrow> 's \<Rightarrow> 's"
  Subtract :: "'s \<Rightarrow> 's \<Rightarrow> 's"
  Multiply :: "'s \<Rightarrow> 's \<Rightarrow> 's"
  Invert :: "'s \<Rightarrow> 's"
  ScalarEncode :: "'s \<Rightarrow> byte list"
  ScalarDecode :: "byte list \<Rightarrow> 's"
  Identity :: "'e"
  Base :: "'e"
  Add :: "'e \<Rightarrow> 'e \<Rightarrow> 'e"
  ScalarMult :: "'s \<Rightarrow> 'e \<Rightarrow> 'e"
  ElementEncode :: "'e \<Rightarrow> byte list"
  ElementDecode :: "byte list \<Rightarrow> 'e"
  SHA3_256 :: "byte list \<Rightarrow> byte list"
  SHA3_512 :: "byte list \<Rightarrow> byte list"

text \<open>
  \<^verbatim>\<open>e.Encode(b)\<close> appends the canonical encoding of \<open>e\<close> to \<open>b\<close> and returns the
  result; \<^verbatim>\<open>e.Encode(nil)\<close> is the encoding alone.
\<close>

definition Encode :: "('s, 'e) r255 \<Rightarrow> 'e \<Rightarrow> byte list \<Rightarrow> byte list" where
  "Encode P e b = b @ ElementEncode P e"

text \<open>\<^verbatim>\<open>ScalarBaseMult(s)\<close> is \<open>s * B\<close>.\<close>

definition ScalarBaseMult :: "('s, 'e) r255 \<Rightarrow> 's \<Rightarrow> 'e" where
  "ScalarBaseMult P s = ScalarMult P s (Base P)"

text \<open>
  \<^verbatim>\<open>MultiScalarMult(scalars, elements)\<close> is the sum of \<open>scalars[i] * elements[i]\<close>. The
  library panics when the two slices differ in length; \<^verbatim>\<open>Test\<close> calls it with two
  literals of length 2.
\<close>

fun MultiScalarMult :: "('s, 'e) r255 \<Rightarrow> 's list \<Rightarrow> 'e list \<Rightarrow> 'e" where
  "MultiScalarMult P (s # ss) (e # es) = Add P (ScalarMult P s e) (MultiScalarMult P ss es)"
| "MultiScalarMult P ss es = Identity P"

text \<open>
  The laws of the library that the scheme relies on: scalars are a field, elements are a
  module over it, the base point is not the identity, and encodings decode to the value
  encoded.
\<close>

definition r255_laws :: "('s, 'e) r255 \<Rightarrow> bool" where
  "r255_laws P \<longleftrightarrow>
     (\<forall>a b. Multiply P a b = Multiply P b a) \<and>
     (\<forall>a b c. Multiply P (Multiply P a b) c = Multiply P a (Multiply P b c)) \<and>
     (\<forall>a. Multiply P (ScalarOne P) a = a) \<and>
     (\<forall>a. a \<noteq> ScalarZero P \<longrightarrow> Multiply P (Invert P a) a = ScalarOne P) \<and>
     (\<forall>a b. ScalarAdd P b (Subtract P a b) = a) \<and>
     (\<forall>e. Add P e (Identity P) = e) \<and>
     Base P \<noteq> Identity P \<and>
     (\<forall>e. ScalarMult P (ScalarOne P) e = e) \<and>
     (\<forall>a. ScalarMult P a (Identity P) = Identity P) \<and>
     (\<forall>a b e. ScalarMult P a (ScalarMult P b e) = ScalarMult P (Multiply P a b) e) \<and>
     (\<forall>a b e. Add P (ScalarMult P a e) (ScalarMult P b e) = ScalarMult P (ScalarAdd P a b) e) \<and>
     (\<forall>s. ScalarDecode P (ScalarEncode P s) = s) \<and>
     (\<forall>e. ElementDecode P (ElementEncode P e) = e)"

subsection \<open>The operations of \<^verbatim>\<open>math/big\<close> that the source uses\<close>

text \<open>
  A \<^verbatim>\<open>big.Int\<close> is an \<open>int\<close>. \<^verbatim>\<open>BitLen\<close> is the length of the absolute value in
  bits, \<^verbatim>\<open>Bits\<close> its little-endian words without leading zero words, \<^verbatim>\<open>Bit(i)\<close> the
  \<open>i\<close>-th bit in two's complement, \<^verbatim>\<open>SetBit(x, i, b)\<close> is \<open>x\<close> with bit \<open>i\<close> set to
  \<open>b\<close>. The source calls \<^verbatim>\<open>Bit\<close> and \<^verbatim>\<open>SetBit\<close> with the index of a \<^verbatim>\<open>range\<close> loop,
  which is never negative, and \<^verbatim>\<open>SetBit\<close> with a value masked to one bit.
\<close>

fun bitlen_nat :: "nat \<Rightarrow> nat" where
  "bitlen_nat n = (if n = 0 then 0 else Suc (bitlen_nat (n div 2)))"

declare bitlen_nat.simps [simp del]

definition BitLen :: "int \<Rightarrow> nat" where
  "BitLen x = bitlen_nat (nat \<bar>x\<bar>)"

fun nat_words :: "nat \<Rightarrow> uint list" where
  "nat_words n = (if n = 0 then [] else word_of_nat n # nat_words (n div 2 ^ 64))"

declare nat_words.simps [simp del]

definition Bits :: "int \<Rightarrow> uint list" where
  "Bits x = nat_words (nat \<bar>x\<bar>)"

definition Bit :: "int \<Rightarrow> nat \<Rightarrow> uint" where
  "Bit x i = (if bit x i then 1 else 0)"

definition SetBit :: "int \<Rightarrow> nat \<Rightarrow> uint \<Rightarrow> int" where
  "SetBit x i b = (if b = 0 then unset_bit i x else set_bit i x)"

subsection \<open>Hash helpers\<close>

text \<open>
  \<^verbatim>\<open>hashG3ToBit\<close>: the three encodings are written to SHA3-256 in order; the result is
  the lowest bit of the first byte of the digest.
\<close>

definition hashG3ToBit :: "('s, 'e) r255 \<Rightarrow> 'e \<Rightarrow> 'e \<Rightarrow> 'e \<Rightarrow> uint" where
  "hashG3ToBit P rB rH zB =
     (let digest = SHA3_256 P (Encode P rB [] @ Encode P rH [] @ Encode P zB [])
      in ucast (hd digest AND 1))"

text \<open>
  The packing loop of \<^verbatim>\<open>hashGVecToScalar\<close>. The capacity of \<^verbatim>\<open>byteRepr\<close> is
  \<^verbatim>\<open>bitVec.BitLen()+7/8\<close>: Go divides before it adds, and \<^verbatim>\<open>7/8\<close> is 0. The inner
  loop leaves as soon as the length has reached the capacity, so \<^verbatim>\<open>append\<close> never grows
  the slice beyond it.
\<close>

definition byteRepr_cap :: "int \<Rightarrow> nat" where
  "byteRepr_cap bitVec = BitLen bitVec + 7 div 8"

function pack_word :: "nat \<Rightarrow> nat \<Rightarrow> uint \<Rightarrow> byte list \<Rightarrow> byte list" where
  "pack_word cap i word byteRepr =
     (if i < UintSize then
        (if length byteRepr \<ge> cap then byteRepr
         else pack_word cap (i + 8) (drop_bit 8 word) (byteRepr @ [ucast word]))
      else byteRepr)"
  by pat_completeness auto
termination
  by (relation "measure (\<lambda>(cap, i, word, byteRepr). UintSize - i)") (auto simp: UintSize_def)

declare pack_word.simps [simp del]

fun pack_words :: "nat \<Rightarrow> uint list \<Rightarrow> byte list \<Rightarrow> byte list" where
  "pack_words cap [] byteRepr = byteRepr"
| "pack_words cap (word # ws) byteRepr = pack_words cap ws (pack_word cap 0 word byteRepr)"

definition packBits :: "int \<Rightarrow> byte list" where
  "packBits bitVec = pack_words (byteRepr_cap bitVec) (Bits bitVec) []"

text \<open>The argument of \<^verbatim>\<open>sha3.Sum512\<close>: \<^verbatim>\<open>u.Encode(byteRepr)\<close>.\<close>

definition hashGVecToScalar_input :: "('s, 'e) r255 \<Rightarrow> 'e \<Rightarrow> int \<Rightarrow> byte list" where
  "hashGVecToScalar_input P u bitVec = Encode P u (packBits bitVec)"

definition hashGVecToScalar :: "('s, 'e) r255 \<Rightarrow> 'e \<Rightarrow> int \<Rightarrow> 's" where
  "hashGVecToScalar P u bitVec =
     (let digest = SHA3_512 P (hashGVecToScalar_input P u bitVec)
      in FromUniformBytes P digest)"

subsection \<open>Panics and the random source\<close>

text \<open>
  The panics of the source and of the Go run time that the source can reach: \<^verbatim>\<open>make\<close>
  with a negative length, an index out of range, and the two calls of \<^verbatim>\<open>panic\<close>.
  Allocation of a slice of non-negative length is taken to succeed.
\<close>

datatype panic =
  MakesliceLenOutOfRange
  | IndexOutOfRange
  | PanicAtTheKeygen
  | ErrorSamplingScalarEntropy


subsection \<open>Keys and flags\<close>

text \<open>
  The fields \<^verbatim>\<open>sk\<close> and \<^verbatim>\<open>pk\<close> of \<^verbatim>\<open>SecretKey\<close>, \<^verbatim>\<open>internal\<close> of \<^verbatim>\<open>PublicKey\<close> and
  of \<^verbatim>\<open>DetectionKey\<close>, and \<^verbatim>\<open>u\<close>, \<^verbatim>\<open>y\<close>, \<^verbatim>\<open>ciphertexts\<close> of \<^verbatim>\<open>Flag\<close>.
\<close>

record ('s, 'e) SecretKey =
  sk_vec :: "'s list"
  pk_vec :: "'e list"


record 's DetectionKey =
  dk_internal :: "'s list"

record ('s, 'e) Flag =
  flag_u :: "'e"
  flag_y :: "'s"
  ciphertexts :: int

subsection \<open>\<^verbatim>\<open>NewSecretKey\<close>\<close>




subsection \<open>\<^verbatim>\<open>PublicKey\<close> and \<^verbatim>\<open>ExtractDetectionKey\<close>\<close>


function ExtractDetectionKey_loop ::
  "('s, 'e) r255 \<Rightarrow> ('s, 'e) SecretKey \<Rightarrow> nat \<Rightarrow> nat \<Rightarrow> 's list \<Rightarrow> panic + 's DetectionKey" where
  "ExtractDetectionKey_loop P key n i secrets =
     (if i < n then
        (if i < length (sk_vec key) then
           ExtractDetectionKey_loop P key n (i + 1)
             (secrets @ [ScalarDecode P (ScalarEncode P (sk_vec key ! i))])
         else Inl IndexOutOfRange)
      else Inr \<lparr>dk_internal = secrets\<rparr>)"
  by pat_completeness auto
termination
  by (relation "measure (\<lambda>(P, key, n, i, secrets). n - i)") auto

declare ExtractDetectionKey_loop.simps [simp del]

definition ExtractDetectionKey ::
  "('s, 'e) r255 \<Rightarrow> ('s, 'e) SecretKey \<Rightarrow> int \<Rightarrow> panic + 's DetectionKey" where
  "ExtractDetectionKey P key n =
     (if n < 0 then Inl MakesliceLenOutOfRange
      else ExtractDetectionKey_loop P key (nat n) 0 [])"

subsection \<open>\<^verbatim>\<open>GenerateFlag\<close>\<close>



subsection \<open>\<^verbatim>\<open>Test\<close>\<close>

text \<open>
  The slot loop. Beside \<^verbatim>\<open>pass\<close> the model carries the number of loop bodies executed
  so far, which the source does not have: it makes the course of the loop visible.
\<close>

fun Test_loop ::
  "('s, 'e) r255 \<Rightarrow> ('s, 'e) Flag \<Rightarrow> 'e \<Rightarrow> nat \<Rightarrow> 's list \<Rightarrow> uint \<times> nat \<Rightarrow> uint \<times> nat" where
  "Test_loop P f w i [] (pass, steps) = (pass, steps)"
| "Test_loop P f w i (x_i # xs) (pass, steps) =
     (let xU = ScalarMult P x_i (flag_u f);
          k = hashG3ToBit P (flag_u f) xU w;
          b = k XOR Bit (ciphertexts f) i
      in Test_loop P f w (i + 1) xs (pass AND b, steps + 1))"

definition Test_w :: "('s, 'e) r255 \<Rightarrow> ('s, 'e) Flag \<Rightarrow> 'e" where
  "Test_w P f =
     (let m = hashGVecToScalar P (flag_u f) (ciphertexts f)
      in MultiScalarMult P [m, flag_y f] [Base P, flag_u f])"

definition Test :: "('s, 'e) r255 \<Rightarrow> 's DetectionKey \<Rightarrow> ('s, 'e) Flag \<Rightarrow> bool" where
  "Test P dk f =
     (if flag_u f = Identity P \<or> flag_y f = ScalarZero P then False
      else
        let w = Test_w P f;
            pass = fst (Test_loop P f w 0 (dk_internal dk) (1, 0))
        in (if pass = 1 then True else False))"

subsection \<open>A small instance of the primitives\<close>

text \<open>
  The integers modulo 7 as scalars and, written additively with generator 1, as the group:
  a prime-order group with its scalar field, as Ristretto255 is one. Encodings are 32
  bytes, little-endian, and the identity encodes as 32 zero bytes, as in the library. The
  two hashes are stand-ins (the sum of the input bytes, padded to the digest length).
  Concrete runs of the functions above are evaluated on this instance.
\<close>

definition le_nat :: "byte list \<Rightarrow> nat" where
  "le_nat bs = foldr (\<lambda>b acc. unat b + 256 * acc) bs 0"

definition z7_val :: "7 \<Rightarrow> nat" where
  "z7_val x = nat (Rep_bit1 x)"

definition z7_encode :: "7 \<Rightarrow> byte list" where
  "z7_encode x = of_nat (z7_val x) # replicate 31 0"

definition z7_decode :: "byte list \<Rightarrow> 7" where
  "z7_decode bs = of_nat (le_nat bs)"

definition z7_sha3_256 :: "byte list \<Rightarrow> byte list" where
  "z7_sha3_256 bs = sum_list bs # replicate 31 0"

definition z7_sha3_512 :: "byte list \<Rightarrow> byte list" where
  "z7_sha3_512 bs = sum_list bs # replicate 63 0"

definition Z7 :: "(7, 7) r255" where
  "Z7 = \<lparr>FromUniformBytes = z7_decode,
         ScalarZero = 0, ScalarOne = 1,
         ScalarAdd = (+), Subtract = (-), Multiply = (*),
         Invert = (\<lambda>a. a ^ 5),
         ScalarEncode = z7_encode, ScalarDecode = z7_decode,
         Identity = 0, Base = 1, Add = (+), ScalarMult = (*),
         ElementEncode = z7_encode, ElementDecode = z7_decode,
         SHA3_256 = z7_sha3_256, SHA3_512 = z7_sha3_512\<rparr>"


section \<open>Evaluation lemmas\<close>

lemmas pack_eval =
  packBits_def byteRepr_cap_def BitLen_def Bits_def bitlen_nat.simps nat_words.simps
  pack_word.simps UintSize_def

lemma z7_cases:
  fixes x :: 7
  shows "x = 0 \<or> x = 1 \<or> x = 2 \<or> x = 3 \<or> x = 4 \<or> x = 5 \<or> x = 6"
proof -
  obtain z where z: "x = of_int z" "0 \<le> z" "z < 7"
    by (rule bit1_cases [of x]) simp
  then have "z = 0 \<or> z = 1 \<or> z = 2 \<or> z = 3 \<or> z = 4 \<or> z = 5 \<or> z = 6"
    by arith
  with z(1) show ?thesis by auto
qed

lemma z7_val_simps:
  "z7_val 0 = 0" "z7_val 1 = 1" "z7_val 2 = 2" "z7_val 3 = 3" "z7_val 4 = 4"
  "z7_val 5 = 5" "z7_val 6 = 6"
  by (simp_all add: z7_val_def bit1.Rep_0 bit1.Rep_1 bit1.Rep_numeral)

lemma le_nat_simps:
  "le_nat [] = 0" "le_nat (b # bs) = unat b + 256 * le_nat bs"
  by (simp_all add: le_nat_def)

lemma le_nat_replicate_0: "le_nat (replicate n 0) = 0"
  by (induction n) (simp_all add: le_nat_simps)

lemma z7_decode_simps: "z7_decode (b # replicate n 0) = of_nat (unat b)"
  by (simp add: z7_decode_def le_nat_simps le_nat_replicate_0)

lemma z7_inverse: "(a::7) \<noteq> 0 \<Longrightarrow> a * a ^ 5 = 1"
  using z7_cases [of a] by auto

lemma z7_decode_encode: "z7_decode (z7_encode x) = x"
  using z7_cases [of x]
  by (auto simp: z7_decode_def z7_encode_def z7_val_simps le_nat_simps le_nat_replicate_0)

lemma replicate_32: "replicate 32 x = x # replicate 31 x"
  by (simp add: numeral_eq_Suc)

lemma Z7_laws: "r255_laws Z7"
  unfolding r255_laws_def
  by (simp add: Z7_def z7_inverse z7_decode_encode algebra_simps)

lemma z7_val_numeral: "z7_val (numeral w) = nat (numeral w mod 7)"
  by (simp add: z7_val_def bit1.Rep_numeral)

lemma z7_decode_zeros: "z7_decode (replicate n 0) = 0"
  by (simp add: z7_decode_def le_nat_replicate_0)

lemma SetBit_eval:
  "SetBit x i 1 = x OR 2 ^ i" "SetBit x i 0 = x AND NOT (2 ^ i)"
  by (simp_all add: SetBit_def set_bit_eq_or unset_bit_eq_and_not push_bit_eq_mult)

lemmas z7_eval =
  z7_val_numeral Z7_def z7_encode_def z7_val_simps z7_decode_simps z7_decode_zeros
  z7_sha3_256_def z7_sha3_512_def sum_list_replicate hashG3ToBit_def hashGVecToScalar_def
  hashGVecToScalar_input_def Encode_def ScalarBaseMult_def Test_def Test_w_def Bit_def
  SetBit_eval Let_def pack_eval

section \<open>The loops\<close>

lemma bit01_and:
  fixes x y :: uint
  assumes "x = 0 \<or> x = 1" "y = 0 \<or> y = 1"
  shows "(x AND y = 1) = (x = 1 \<and> y = 1)" "x AND y = 0 \<or> x AND y = 1"
  using assms by auto

lemma hashG3ToBit_01: "hashG3ToBit P a b c = 0 \<or> hashG3ToBit P a b c = 1"
proof -
  have "x AND 1 = 0 \<or> x AND 1 = 1" for x :: byte
    by (simp add: and_one_eq mod_2_eq_odd)
  then have "(ucast (x AND 1) :: uint) = 0 \<or> (ucast (x AND 1) :: uint) = 1" for x :: byte
    by (metis unsigned_0 unsigned_1)
  then show ?thesis
    by (simp add: hashG3ToBit_def Let_def)
qed

lemma Bit_01: "Bit x i = 0 \<or> Bit x i = 1"
  by (simp add: Bit_def)

lemma xor_01:
  fixes x y :: uint
  assumes "x = 0 \<or> x = 1" "y = 0 \<or> y = 1"
  shows "x XOR y = 0 \<or> x XOR y = 1"
  using assms by auto

lemma xor_eq_1_iff:
  fixes k c :: uint
  shows "(k XOR c = 1) = (k = 1 XOR c)"
proof
  assume "k XOR c = 1"
  then have "(k XOR c) XOR c = 1 XOR c" by simp
  then show "k = 1 XOR c" by (simp add: xor.assoc)
next
  assume "k = 1 XOR c"
  then show "k XOR c = 1" by (simp add: xor.assoc)
qed


lemma Test_loop_pass:
  "pass = 0 \<or> pass = 1 \<Longrightarrow>
   (fst (Test_loop P f w i xs (pass, steps)) = 1) =
   (pass = 1 \<and> (\<forall>j < length xs.
      hashG3ToBit P (flag_u f) (ScalarMult P (xs ! j) (flag_u f)) w XOR
        Bit (ciphertexts f) (i + j) = 1))"
proof (induction xs arbitrary: i pass steps)
  case Nil
  then show ?case by simp
next
  case (Cons x xs)
  let ?b = "hashG3ToBit P (flag_u f) (ScalarMult P x (flag_u f)) w XOR Bit (ciphertexts f) i"
  have b01: "?b = 0 \<or> ?b = 1"
    by (rule xor_01 [OF hashG3ToBit_01 Bit_01])
  have p01: "pass AND ?b = 0 \<or> pass AND ?b = 1"
    by (rule bit01_and(2) [OF Cons.prems b01])
  have "(fst (Test_loop P f w i (x # xs) (pass, steps)) = 1) =
        (fst (Test_loop P f w (i + 1) xs (pass AND ?b, steps + 1)) = 1)"
    by (simp add: Let_def)
  also have "\<dots> = (pass AND ?b = 1 \<and> (\<forall>j < length xs.
      hashG3ToBit P (flag_u f) (ScalarMult P (xs ! j) (flag_u f)) w XOR
        Bit (ciphertexts f) (i + 1 + j) = 1))"
    by (rule Cons.IH [OF p01])
  also have "\<dots> = (pass = 1 \<and> (\<forall>j < length (x # xs).
      hashG3ToBit P (flag_u f) (ScalarMult P ((x # xs) ! j) (flag_u f)) w XOR
        Bit (ciphertexts f) (i + j) = 1))"
    by (auto simp: bit01_and(1) [OF Cons.prems b01] less_Suc_eq_0_disj)
  finally show ?case .
qed

lemma Test_iff:
  "Test P dk f =
     (flag_u f \<noteq> Identity P \<and> flag_y f \<noteq> ScalarZero P \<and>
      (\<forall>j < length (dk_internal dk).
         hashG3ToBit P (flag_u f) (ScalarMult P (dk_internal dk ! j) (flag_u f)) (Test_w P f)
           XOR Bit (ciphertexts f) j = 1))"
  using Test_loop_pass [of 1 P f "Test_w P f" 0 "dk_internal dk" 0]
  by (simp add: Test_def Let_def)

lemma ExtractDetectionKey_loop_ok:
  "i \<le> n \<Longrightarrow> n \<le> length (sk_vec key) \<Longrightarrow>
   ExtractDetectionKey_loop P key n i secrets =
     Inr \<lparr>dk_internal = secrets @
       map (\<lambda>s. ScalarDecode P (ScalarEncode P s)) (drop i (take n (sk_vec key)))\<rparr>"
proof (induction "n - i" arbitrary: i secrets)
  case 0
  then show ?case
    by (subst ExtractDetectionKey_loop.simps) simp
next
  case (Suc d)
  then have lt: "i < n" "i < length (sk_vec key)" and d: "d = n - (i + 1)" "i + 1 \<le> n"
    by simp_all
  have step: "drop i (take n (sk_vec key)) = sk_vec key ! i # drop (i + 1) (take n (sk_vec key))"
    using lt Suc.prems by (simp add: Cons_nth_drop_Suc [symmetric])
  show ?case
    using lt Suc.hyps(1) [OF d Suc.prems(2)]
    by (subst ExtractDetectionKey_loop.simps) (simp add: step)
qed


lemma ExtractDetectionKey_ok:
  "0 \<le> n \<Longrightarrow> n \<le> int (length (sk_vec key)) \<Longrightarrow>
   ExtractDetectionKey P key n =
     Inr \<lparr>dk_internal = map (\<lambda>s. ScalarDecode P (ScalarEncode P s)) (take (nat n) (sk_vec key))\<rparr>"
  using ExtractDetectionKey_loop_ok [of 0 "nat n" key P "[]"]
  by (simp add: ExtractDetectionKey_def)






section \<open>The length of the packed bit-vector\<close>

lemma pack_word_step:
  assumes "i < UintSize"
  shows "(UintSize - i + 7) div 8 = Suc ((UintSize - (i + 8) + 7) div 8)"
proof (cases "i \<le> 56")
  case True
  define k where "k = UintSize - (i + 8)"
  from True have "UintSize - i = k + 8"
    by (simp add: k_def UintSize_def)
  then have "(UintSize - i + 7) div 8 = (k + 7 + 8) div 8"
    by (simp only: ac_simps)
  also have "\<dots> = Suc ((k + 7) div 8)"
    by simp
  finally show ?thesis
    by (simp only: k_def)
next
  case False
  define a where "a = UintSize - i"
  from False assms have a: "1 \<le> a" "a < 8" and z: "UintSize - (i + 8) = 0"
    by (simp_all add: a_def UintSize_def)
  from a have "(a + 7) div 8 = 1"
    by (intro div_nat_eqI) simp_all
  then show ?thesis
    by (simp only: z a_def)
qed

lemma pack_word_length:
  "length byteRepr \<le> cap \<Longrightarrow>
   length (pack_word cap i word byteRepr) =
     min cap (length byteRepr + (UintSize - i + 7) div 8)"
proof (induction cap i word byteRepr rule: pack_word.induct)
  case (1 cap i word byteRepr)
  show ?case
  proof (cases "i < UintSize")
    case False
    then show ?thesis
      using "1.prems" by (subst pack_word.simps) simp
  next
    case True
    show ?thesis
    proof (cases "cap \<le> length byteRepr")
      case full: True
      then show ?thesis
        using True "1.prems" by (subst pack_word.simps) simp
    next
      case room: False
      have step: "(UintSize - i + 7) div 8 = Suc ((UintSize - (i + 8) + 7) div 8)"
        by (rule pack_word_step [OF True])
      have "length (pack_word cap (i + 8) (drop_bit 8 word) (byteRepr @ [ucast word])) =
          min cap (length (byteRepr @ [ucast word]) + (UintSize - (i + 8) + 7) div 8)"
        using True room by (intro "1.IH") simp_all
      then show ?thesis
        using True room by (subst pack_word.simps) (simp only: step, simp)
    qed
  qed
qed

lemma pack_words_length:
  "length byteRepr \<le> cap \<Longrightarrow>
   length (pack_words cap ws byteRepr) = min cap (length byteRepr + 8 * length ws)"
proof (induction ws arbitrary: byteRepr)
  case Nil
  then show ?case by simp
next
  case (Cons w ws)
  have l: "length (pack_word cap 0 w byteRepr) = min cap (length byteRepr + 8)"
    using pack_word_length [OF Cons.prems, of 0 w] by (simp add: UintSize_def)
  then have "length (pack_word cap 0 w byteRepr) \<le> cap" by simp
  from Cons.IH [OF this] l show ?case by simp
qed

lemma packBits_length:
  "length (packBits bitVec) = min (BitLen bitVec) (8 * length (Bits bitVec))"
proof -
  have c: "byteRepr_cap bitVec = BitLen bitVec"
    unfolding byteRepr_cap_def by simp
  have "length (pack_words (BitLen bitVec) (Bits bitVec) []) =
      min (BitLen bitVec) (length ([] :: byte list) + 8 * length (Bits bitVec))"
    by (rule pack_words_length) simp
  then show ?thesis
    unfolding packBits_def c by simp
qed

section \<open>The algebra of an honest flag\<close>






section \<open>Runs on the small instance\<close>







section \<open>The hash input of \<^verbatim>\<open>hashGVecToScalar\<close>\<close>

text \<open>
  C3. The claim: \<^verbatim>\<open>hashGVecToScalar\<close> packs the bit-vector into the least number of
  bytes that covers its highest set bit, \<open>\<lceil>bitlen / 8\<rceil>\<close> bytes, with no trailing zero
  byte. The source's comment says the same ("necessary size, zero-padded to nearest
  byte"), but the capacity it computes is \<^verbatim>\<open>BitLen()+7/8 = BitLen()\<close>, and the loop
  stops at the capacity or at the end of the last word, so the packed length is the
  smaller of the bit length and eight times the number of words (\<open>packBits_length\<close>).
  For the 24 ones of the test suite the bit length is 24, three bytes would cover it,
  and the loop appends all eight bytes of the word.
\<close>

theorem packBits_24_ones:
  "BitLen (2 ^ 24 - 1) = 24 \<and>
   packBits (2 ^ 24 - 1) = [255, 255, 255, 0, 0, 0, 0, 0] \<and>
   length (packBits (2 ^ 24 - 1)) \<noteq> (BitLen (2 ^ 24 - 1) + 7) div 8"
  by (simp add: pack_eval)

text \<open>
  C4, as stated: the bytes given to SHA3-512 are the encoding of \<open>u\<close> followed by the
  packed bits. At the identity (32 zero bytes) and the bit-vector 1 (one byte, 1) the
  source hashes the byte 1 followed by 32 zero bytes, not 32 zero bytes followed by 1.
\<close>

theorem hash_input_order_counterexample:
  "hashGVecToScalar_input Z7 0 1 = 1 # replicate 32 0 \<and>
   ElementEncode Z7 0 @ packBits 1 = replicate 32 0 @ [1] \<and>
   hashGVecToScalar_input Z7 0 1 \<noteq> ElementEncode Z7 0 @ packBits 1"
  by (simp add: hashGVecToScalar_input_def Encode_def Z7_def z7_encode_def z7_val_simps
      pack_eval replicate_32 replicate_append_same)

text \<open>
  C4, amended: the bytes given to SHA3-512 are the packed bits followed by the encoding
  of \<open>u\<close>, since \<^verbatim>\<open>u.Encode(byteRepr)\<close> appends to \<^verbatim>\<open>byteRepr\<close>.
\<close>

theorem hash_input_order:
  "hashGVecToScalar_input P u bitVec = packBits bitVec @ ElementEncode P u \<and>
   hashGVecToScalar P u bitVec =
     FromUniformBytes P (SHA3_512 P (packBits bitVec @ ElementEncode P u))"
  by (simp add: hashGVecToScalar_def hashGVecToScalar_input_def Encode_def)

section \<open>\<^verbatim>\<open>Test\<close>\<close>

text \<open>
  C5. A flag whose \<open>u\<close> is the identity or whose \<open>y\<close> is zero is rejected by every
  detection key, whatever its bit-vector.
\<close>

theorem Test_rejects_universal:
  "flag_u f = Identity P \<or> flag_y f = ScalarZero P \<Longrightarrow> Test P dk f = False"
  by (auto simp: Test_def)

theorem Test_rejects_universal_witness:
  "(flag_u \<lparr>flag_u = 0, flag_y = 0, ciphertexts = 2 ^ 24 - 1\<rparr> = Identity Z7 \<or>
    flag_y \<lparr>flag_u = 0, flag_y = 0, ciphertexts = 2 ^ 24 - 1\<rparr> = ScalarZero Z7) \<and>
   Test Z7 \<lparr>dk_internal = [2, 3, 4, 5, 6]\<rparr>
     \<lparr>flag_u = 0, flag_y = 0, ciphertexts = 2 ^ 24 - 1\<rparr> = False"
proof -
  have h: "flag_u \<lparr>flag_u = (0::7), flag_y = (0::7), ciphertexts = 2 ^ 24 - 1\<rparr> = Identity Z7 \<or>
           flag_y \<lparr>flag_u = (0::7), flag_y = (0::7), ciphertexts = 2 ^ 24 - 1\<rparr> = ScalarZero Z7"
    by (simp add: Z7_def)
  from Test_rejects_universal [OF h, of "\<lparr>dk_internal = [2, 3, 4, 5, 6]\<rparr>"] h
  show ?thesis by simp
qed

text \<open>
  C10. A detection key of length 0 can be extracted from every secret key, and it matches
  every flag that is not rejected as universal: with no slot the accumulator stays 1.
\<close>

theorem Test_empty_key:
  "ExtractDetectionKey P key 0 = Inr \<lparr>dk_internal = []\<rparr> \<and>
   (flag_u f \<noteq> Identity P \<and> flag_y f \<noteq> ScalarZero P \<longrightarrow>
      Test P \<lparr>dk_internal = []\<rparr> f = True)"
  by (simp add: ExtractDetectionKey_def ExtractDetectionKey_loop.simps Test_def)

theorem Test_empty_key_witness:
  "ExtractDetectionKey Z7 \<lparr>sk_vec = [2], pk_vec = [2]\<rparr> 0 = Inr \<lparr>dk_internal = []\<rparr> \<and>
   flag_u \<lparr>flag_u = 3, flag_y = 5, ciphertexts = 1\<rparr> \<noteq> Identity Z7 \<and>
   flag_y \<lparr>flag_u = 3, flag_y = 5, ciphertexts = 1\<rparr> \<noteq> ScalarZero Z7 \<and>
   Test Z7 \<lparr>dk_internal = []\<rparr> \<lparr>flag_u = 3, flag_y = 5, ciphertexts = 1\<rparr> = True"
  using Test_empty_key [of Z7 "\<lparr>sk_vec = [2], pk_vec = [2]\<rparr>"
      "\<lparr>flag_u = 3, flag_y = 5, ciphertexts = 1\<rparr>"]
  by (simp add: Z7_def)

text \<open>
  C2, as stated: a flag that is not universal matches iff every slot's hash of
  \<open>(u, x\<^sub>i * u, y * B + m * B)\<close> equals \<open>1 XOR c\<^sub>i\<close>. The source multiplies \<open>y\<close> with
  \<open>u\<close>, not with the base point. For the key \<open>[2]\<close> and its honest flag
  \<open>(u, y, c) = (3, 5, 1)\<close> the source returns true, and the hash at \<open>y * B + m * B\<close>
  differs from \<open>1 XOR c\<^sub>0\<close>.
\<close>

theorem Test_third_argument_counterexample:
  "flag_u \<lparr>flag_u = 3, flag_y = 5, ciphertexts = 1\<rparr> \<noteq> Identity Z7 \<and>
   flag_y \<lparr>flag_u = 3, flag_y = 5, ciphertexts = 1\<rparr> \<noteq> ScalarZero Z7 \<and>
   Test Z7 \<lparr>dk_internal = [2]\<rparr> \<lparr>flag_u = 3, flag_y = 5, ciphertexts = 1\<rparr> = True \<and>
   hashG3ToBit Z7 3 (ScalarMult Z7 2 3)
     (Add Z7 (ScalarMult Z7 5 (Base Z7)) (ScalarMult Z7 (hashGVecToScalar Z7 3 1) (Base Z7)))
     \<noteq> 1 XOR Bit 1 0"
  by (simp add: z7_eval)

text \<open>
  C2, amended: a flag with \<open>u\<close> not the identity and \<open>y\<close> not zero matches a detection
  key of length \<open>n\<close> iff for every \<open>i < n\<close> the hash of \<open>(u, x\<^sub>i * u, m * B + y * u)\<close>
  equals \<open>1 XOR c\<^sub>i\<close>, with \<open>m = hashGVecToScalar(u, c)\<close>.
\<close>

theorem Test_slot_criterion:
  assumes "r255_laws P" "flag_u f \<noteq> Identity P" "flag_y f \<noteq> ScalarZero P"
  shows "Test P dk f \<longleftrightarrow>
    (\<forall>i < length (dk_internal dk).
       hashG3ToBit P (flag_u f) (ScalarMult P (dk_internal dk ! i) (flag_u f))
         (Add P (ScalarMult P (hashGVecToScalar P (flag_u f) (ciphertexts f)) (Base P))
                (ScalarMult P (flag_y f) (flag_u f)))
       = 1 XOR Bit (ciphertexts f) i)"
proof -
  have "Add P e (Identity P) = e" for e
    using assms(1) by (simp add: r255_laws_def)
  then have w: "Test_w P f =
      Add P (ScalarMult P (hashGVecToScalar P (flag_u f) (ciphertexts f)) (Base P))
            (ScalarMult P (flag_y f) (flag_u f))"
    by (simp add: Test_w_def Let_def)
  show ?thesis
    using assms(2,3) by (simp add: Test_iff w xor_eq_1_iff)
qed

theorem Test_slot_criterion_witness:
  "r255_laws Z7 \<and>
   flag_u \<lparr>flag_u = 3, flag_y = 2, ciphertexts = 3\<rparr> \<noteq> Identity Z7 \<and>
   flag_y \<lparr>flag_u = 3, flag_y = 2, ciphertexts = 3\<rparr> \<noteq> ScalarZero Z7 \<and>
   Test Z7 \<lparr>dk_internal = [2, 3]\<rparr> \<lparr>flag_u = 3, flag_y = 2, ciphertexts = 3\<rparr> \<and>
   hashG3ToBit Z7 3 (ScalarMult Z7 2 3)
     (Add Z7 (ScalarMult Z7 (hashGVecToScalar Z7 3 3) (Base Z7)) (ScalarMult Z7 2 3))
     = 1 XOR Bit 3 0 \<and>
   hashG3ToBit Z7 3 (ScalarMult Z7 3 3)
     (Add Z7 (ScalarMult Z7 (hashGVecToScalar Z7 3 3) (Base Z7)) (ScalarMult Z7 2 3))
     = 1 XOR Bit 3 1"
proof -
  have h: "flag_u \<lparr>flag_u = (3::7), flag_y = (2::7), ciphertexts = 3\<rparr> \<noteq> Identity Z7"
    "flag_y \<lparr>flag_u = (3::7), flag_y = (2::7), ciphertexts = 3\<rparr> \<noteq> ScalarZero Z7"
    by (simp_all add: Z7_def)
  from Test_slot_criterion [OF Z7_laws h, of "\<lparr>dk_internal = [2, 3]\<rparr>"] Z7_laws h
  show ?thesis
    by (simp add: z7_eval)
qed

text \<open>
  C6. For \<open>0 \<le> n \<le> m\<close> within the length of the secret key both detection keys are
  extracted, and a flag that matches the one of length \<open>m\<close> matches the one of length
  \<open>n\<close>.
\<close>

theorem Test_prefix_monotone:
  assumes "0 \<le> n" "n \<le> m" "m \<le> int (length (sk_vec key))"
  shows "\<exists>dk_n dk_m.
    ExtractDetectionKey P key n = Inr dk_n \<and>
    ExtractDetectionKey P key m = Inr dk_m \<and>
    (Test P dk_m f \<longrightarrow> Test P dk_n f)"
proof -
  let ?c = "\<lambda>s. ScalarDecode P (ScalarEncode P s)"
  let ?dk = "\<lambda>k. \<lparr>dk_internal = map ?c (take (nat k) (sk_vec key))\<rparr>"
  have n: "ExtractDetectionKey P key n = Inr (?dk n)"
    using assms by (intro ExtractDetectionKey_ok) simp_all
  have m: "ExtractDetectionKey P key m = Inr (?dk m)"
    using assms by (intro ExtractDetectionKey_ok) simp_all
  have nm: "nat n \<le> nat m" "nat m \<le> length (sk_vec key)"
    using assms by simp_all
  have nth: "dk_internal (?dk n) ! j = dk_internal (?dk m) ! j" if "j < nat n" for j
    using that nm by simp
  have "Test P (?dk n) f" if t: "Test P (?dk m) f"
    unfolding Test_iff
  proof (intro conjI allI impI)
    show "flag_u f \<noteq> Identity P" "flag_y f \<noteq> ScalarZero P"
      using t by (simp_all add: Test_iff)
  next
    fix j assume "j < length (dk_internal (?dk n))"
    with nm have j: "j < nat n" "j < length (dk_internal (?dk m))"
      by simp_all
    from t j(2) have "hashG3ToBit P (flag_u f)
        (ScalarMult P (dk_internal (?dk m) ! j) (flag_u f)) (Test_w P f)
        XOR Bit (ciphertexts f) j = 1"
      unfolding Test_iff by blast
    then show "hashG3ToBit P (flag_u f)
        (ScalarMult P (dk_internal (?dk n) ! j) (flag_u f)) (Test_w P f)
        XOR Bit (ciphertexts f) j = 1"
      using nth [OF j(1)] by simp
  qed
  with n m show ?thesis by blast
qed

theorem Test_prefix_monotone_witness:
  "(0::int) \<le> 1 \<and> (1::int) \<le> 2 \<and>
   (2::int) \<le> int (length (sk_vec \<lparr>sk_vec = [2, 3, 4 :: 7], pk_vec = [2, 3, 4 :: 7]\<rparr>)) \<and>
   ExtractDetectionKey Z7 \<lparr>sk_vec = [2, 3, 4], pk_vec = [2, 3, 4]\<rparr> 1 = Inr \<lparr>dk_internal = [2]\<rparr> \<and>
   ExtractDetectionKey Z7 \<lparr>sk_vec = [2, 3, 4], pk_vec = [2, 3, 4]\<rparr> 2 = Inr \<lparr>dk_internal = [2, 3]\<rparr> \<and>
   Test Z7 \<lparr>dk_internal = [2, 3]\<rparr> \<lparr>flag_u = 3, flag_y = 2, ciphertexts = 3\<rparr> \<and>
   Test Z7 \<lparr>dk_internal = [2]\<rparr> \<lparr>flag_u = 3, flag_y = 2, ciphertexts = 3\<rparr>"
proof -
  have e: "ExtractDetectionKey Z7 \<lparr>sk_vec = [2, 3, 4], pk_vec = [2, 3, 4]\<rparr> 1 = Inr \<lparr>dk_internal = [2]\<rparr>"
    "ExtractDetectionKey Z7 \<lparr>sk_vec = [2, 3, 4], pk_vec = [2, 3, 4]\<rparr> 2 = Inr \<lparr>dk_internal = [2, 3]\<rparr>"
    by (simp_all add: ExtractDetectionKey_def ExtractDetectionKey_loop.simps Z7_def z7_decode_encode)
  have t: "Test Z7 \<lparr>dk_internal = [2, 3]\<rparr> \<lparr>flag_u = 3, flag_y = 2, ciphertexts = 3\<rparr>"
    by (simp add: z7_eval)
  from Test_prefix_monotone [of 1 2 "\<lparr>sk_vec = [2, 3, 4 :: 7], pk_vec = [2, 3, 4 :: 7]\<rparr>" Z7
      "\<lparr>flag_u = 3, flag_y = 2, ciphertexts = 3\<rparr>"] e t
  show ?thesis by simp
qed







section \<open>Honest flags\<close>




end
